theory Spec2Isabelle
  imports Complex_Main "HOL-Library.Log_Nat"
begin

section \<open>Data model\<close>

text \<open>
  A Python \<open>str\<close> is a sequence of Unicode code points.  The program compares strings
  for equality, splits them and concatenates them; the literals it uses lie outside
  ASCII, so a string is modelled as the list of its code points.
\<close>

type_synonym pystr = "nat list"

text \<open>
  A person is the dictionary \<open>{"name": ..., "province": ..., "is_external": ...}\<close> built
  by \<open>parse_input\<close>.
\<close>

record person =
  name :: pystr
  province :: pystr
  is_external :: bool

text \<open>The exceptions the program can raise.\<close>

datatype error = ValueError | IndexError | ZeroDivisionError | OverflowError

text \<open>
  The attributes of \<open>GroupGeneration\<close>.  \<open>assigned_groups\<close> is a
  \<open>defaultdict(list)\<close> keyed by the group id: reading a key that was never written gives
  the empty list, so the table is a total function from group ids to sequences.
\<close>

record group_generation =
  M :: int
  N :: int
  external_num :: int
  group_person_lower_limit :: int
  group_person_upper_limit :: int
  group_external_upper_limit :: int
  assigned_groups :: "nat \<Rightarrow> person list"
  group_leaders :: "person list"
  group_members :: "person list"
  groups :: "pystr list list"
  group_members_no_external :: "person list"
  group_members_external :: "person list"
  max_group_external_touch_upper_limit :: int
  max_group_member_touch_upper_limit :: int

text \<open>The class-level defaults, which a fresh instance reads until it assigns its own.\<close>

definition new_group_generation :: group_generation where
  "new_group_generation =
     \<lparr> M = - 1, N = - 1, external_num = 0,
       group_person_lower_limit = 1,
       group_person_upper_limit = - 1,
       group_external_upper_limit = - 1,
       assigned_groups = (\<lambda>_. []),
       group_leaders = [], group_members = [], groups = [],
       group_members_no_external = [], group_members_external = [],
       max_group_external_touch_upper_limit = - 1,
       max_group_member_touch_upper_limit = - 1 \<rparr>"

section \<open>The limit calculator: \<open>init\<close>\<close>








section \<open>The backtracking engine: \<open>assign_backtrace\<close>\<close>

text \<open>
  Indexing a list with a Python integer: a negative index counts from the end, and an
  index outside \<open>[-len, len)\<close> raises \<open>IndexError\<close>.
\<close>

definition py_index :: "'a list \<Rightarrow> int \<Rightarrow> error + 'a" where
  "py_index xs i =
     (if 0 \<le> i \<and> i < int (length xs) then Inr (xs ! nat i)
      else if i < 0 \<and> - int (length xs) \<le> i then Inr (xs ! nat (int (length xs) + i))
      else Inl IndexError)"

text \<open>
  \<open>self.assigned_groups[group_id].append(person)\<close> and
  \<open>self.assigned_groups[group_id].pop()\<close>; popping an empty list raises \<open>IndexError\<close>.
\<close>

definition append_person :: "group_generation \<Rightarrow> nat \<Rightarrow> person \<Rightarrow> group_generation" where
  "append_person s group_id person =
     s\<lparr>assigned_groups := (assigned_groups s)(group_id := assigned_groups s group_id @ [person])\<rparr>"

definition pop_person :: "group_generation \<Rightarrow> nat \<Rightarrow> error + group_generation" where
  "pop_person s group_id =
     (if assigned_groups s group_id = [] then Inl IndexError
      else Inr (s\<lparr>assigned_groups :=
                  (assigned_groups s)(group_id := butlast (assigned_groups s group_id))\<rparr>))"

text \<open>
  The admissibility predicate is a closure over \<open>self\<close>: it reads the object, the
  person and the group id, and returns a truth value or raises.  The three predicates of
  the program only read the object, and the engine is modelled for predicates of that kind.

  \<open>assign_backtrace\<close> is the method, \<open>assign_loop\<close> its \<open>for group_id in range(self.M)\<close>
  loop from \<open>group_id\<close> on, with \<open>m\<close> the bound of the range.  The result is the
  returned truth value with the object as the call leaves it.
\<close>

type_synonym can_assign = "group_generation \<Rightarrow> person \<Rightarrow> nat \<Rightarrow> error + bool"

function assign_backtrace ::
    "group_generation \<Rightarrow> int \<Rightarrow> person list \<Rightarrow> can_assign \<Rightarrow> error + (bool \<times> group_generation)"
  and assign_loop ::
    "int \<Rightarrow> person list \<Rightarrow> can_assign \<Rightarrow> person \<Rightarrow> nat \<Rightarrow> nat \<Rightarrow> group_generation
      \<Rightarrow> error + (bool \<times> group_generation)"
where
  "assign_backtrace s index people can_assign_func =
     (if index = int (length people) then Inr (True, s)
      else case py_index people index of
          Inl e \<Rightarrow> Inl e
        | Inr person \<Rightarrow> assign_loop index people can_assign_func person (nat (M s)) 0 s)"
| "assign_loop index people can_assign_func person m group_id s =
     (if m \<le> group_id then Inr (False, s)
      else case can_assign_func s person group_id of
          Inl e \<Rightarrow> Inl e
        | Inr False \<Rightarrow> assign_loop index people can_assign_func person m (Suc group_id) s
        | Inr True \<Rightarrow>
            (case assign_backtrace (append_person s group_id person) (index + 1) people
                    can_assign_func of
               Inl e \<Rightarrow> Inl e
             | Inr (True, s') \<Rightarrow> Inr (True, s')
             | Inr (False, s') \<Rightarrow>
                 (case pop_person s' group_id of
                    Inl e \<Rightarrow> Inl e
                  | Inr s'' \<Rightarrow>
                      assign_loop index people can_assign_func person m (Suc group_id) s'')))"
  by pat_completeness auto
termination
proof (relation "measures
    [\<lambda>x. case x of
        Inl (s, index, people, f) \<Rightarrow> 2 * nat (int (length people) - index)
      | Inr (index, people, f, person, m, group_id, s) \<Rightarrow>
          2 * nat (int (length people) - (index + 1)) + 1,
     \<lambda>x. case x of
        Inl (s, index, people, f) \<Rightarrow> 0
      | Inr (index, people, f, person, m, group_id, s) \<Rightarrow> m - group_id]", goal_cases)
  case 1
  then show ?case by simp
next
  case (2 s index people can_assign_func x2)
  then have "index < int (length people)"
    by (auto simp: py_index_def split: if_splits)
  then show ?case by simp
next
  case 3
  then show ?case by auto
next
  case 4
  then show ?case by auto
next
  case 5
  then show ?case by auto
qed

declare assign_backtrace.simps [simp del] assign_loop.simps [simp del]

subsection \<open>The search as the specification words it\<close>

text \<open>
  People are placed in list order.  For one person the candidate groups \<open>0, \<dots>, m - 1\<close>
  are tried in ascending order; a candidate is taken when the predicate admits it and the
  rest of the list can be placed after the person has been appended to it, and the first
  such candidate wins.  \<open>first_fit\<close> returns the group chosen for each person, or
  \<open>None\<close> when some person cannot be placed; \<open>place_all\<close> appends each person to the
  group chosen for them.
\<close>

primrec first_some :: "('a \<Rightarrow> 'b option) \<Rightarrow> 'a list \<Rightarrow> 'b option" where
  "first_some f [] = None"
| "first_some f (x # xs) = (case f x of Some y \<Rightarrow> Some y | None \<Rightarrow> first_some f xs)"

fun first_fit ::
  "(group_generation \<Rightarrow> person \<Rightarrow> nat \<Rightarrow> bool) \<Rightarrow> nat \<Rightarrow> person list \<Rightarrow> group_generation
    \<Rightarrow> nat list option" where
  "first_fit admissible m [] s = Some []"
| "first_fit admissible m (p # ps) s =
     first_some
       (\<lambda>g. if admissible s p g
            then map_option ((#) g) (first_fit admissible m ps (append_person s g p))
            else None)
       [0..<m]"

definition place_all :: "group_generation \<Rightarrow> person list \<Rightarrow> nat list \<Rightarrow> group_generation" where
  "place_all s people gs = foldl (\<lambda>s' (p, g). append_person s' g p) s (zip people gs)"

definition engine_result ::
  "group_generation \<Rightarrow> person list \<Rightarrow> nat list option \<Rightarrow> error + (bool \<times> group_generation)" where
  "engine_result s people r =
     (case r of Some gs \<Rightarrow> Inr (True, place_all s people gs) | None \<Rightarrow> Inr (False, s))"

subsection \<open>Two small runs\<close>

definition person_a :: person where
  "person_a = \<lparr>name = [65], province = [120], is_external = False\<rparr>"

definition person_b :: person where
  "person_b = \<lparr>name = [66], province = [121], is_external = True\<rparr>"

definition two_groups :: group_generation where
  "two_groups = new_group_generation\<lparr>M := 2, groups := [[[122]], [[122]]]\<rparr>"



text \<open>A predicate that admits a person to group 0 only, and only while it is empty.\<close>

definition first_group_only :: can_assign where
  "first_group_only s p g = Inr (g = 0 \<and> assigned_groups s 0 = [])"

section \<open>The three phases\<close>

text \<open>
  \<open>person["province"] in self.groups[group_id]\<close>: the exclusion list of the group is
  read by index, which raises \<open>IndexError\<close> when the object holds fewer lists than the
  group id asks for.  Group ids come from \<open>range(self.M)\<close> and are never negative.
\<close>

definition province_conflict :: "group_generation \<Rightarrow> person \<Rightarrow> nat \<Rightarrow> error + bool" where
  "province_conflict s person group_id =
     (if group_id < length (groups s)
      then Inr (province person \<in> set (groups s ! group_id))
      else Inl IndexError)"

text \<open>\<open>sum(1 for person in group if person["is_external"])\<close>\<close>

definition count_external :: "person list \<Rightarrow> int" where
  "count_external grp = int (length (filter is_external grp))"

subsection \<open>Phase 1: leaders\<close>

definition leaders_can_assign_func :: can_assign where
  "leaders_can_assign_func s person group_id =
     (case province_conflict s person group_id of
        Inl e \<Rightarrow> Inl e
      | Inr True \<Rightarrow> Inr False
      | Inr False \<Rightarrow>
          if 1 \<le> length (assigned_groups s group_id) then Inr False else Inr True)"

definition assign_leaders :: "group_generation \<Rightarrow> error + (bool \<times> group_generation)" where
  "assign_leaders s = assign_backtrace s 0 (group_leaders s) leaders_can_assign_func"

subsection \<open>Phase 2: external members\<close>

text \<open>
  \<open>get_group_touch_limit\<close> walks over the groups \<open>0, \<dots>, M - 1\<close> and returns whether
  the group asked about has reached the external limit, and how many groups have.
\<close>

definition externals_get_group_touch_limit :: "group_generation \<Rightarrow> nat \<Rightarrow> bool \<times> int" where
  "externals_get_group_touch_limit s group_id =
     foldl
       (\<lambda>(is_this_group_touched, used_group_touched_num) group_id'.
          let external_num' = count_external (assigned_groups s group_id')
          in (is_this_group_touched \<or>
                (group_id' = group_id \<and> group_external_upper_limit s \<le> external_num'),
              if group_external_upper_limit s \<le> external_num'
              then used_group_touched_num + 1 else used_group_touched_num))
       (False, 0) [0..<nat (M s)]"

definition externals_get_group_external_num :: "group_generation \<Rightarrow> nat \<Rightarrow> int" where
  "externals_get_group_external_num s group_id = count_external (assigned_groups s group_id)"

definition externals_can_assign_func :: can_assign where
  "externals_can_assign_func s person group_id =
     (case province_conflict s person group_id of
        Inl e \<Rightarrow> Inl e
      | Inr True \<Rightarrow> Inr False
      | Inr False \<Rightarrow>
          let this_group_external_num = externals_get_group_external_num s group_id in
          if group_external_upper_limit s \<le> this_group_external_num then Inr False
          else if group_person_upper_limit s \<le> int (length (assigned_groups s group_id))
          then Inr False
          else
            let used_group_touched_num = snd (externals_get_group_touch_limit s group_id) in
            if group_external_upper_limit s \<le> this_group_external_num + 1 \<and>
               max_group_external_touch_upper_limit s \<le> used_group_touched_num
            then Inr False
            else Inr True)"

definition assign_externals :: "group_generation \<Rightarrow> error + (bool \<times> group_generation)" where
  "assign_externals s = assign_backtrace s 0 (group_members_external s) externals_can_assign_func"

subsection \<open>Phase 3: the other members\<close>

definition members_get_group_touch_limit :: "group_generation \<Rightarrow> nat \<Rightarrow> bool \<times> int" where
  "members_get_group_touch_limit s group_id =
     foldl
       (\<lambda>(is_this_group_touched, used_group_touched_num) group_id'.
          let member_num = int (length (assigned_groups s group_id'))
          in (is_this_group_touched \<or>
                (group_id' = group_id \<and> group_person_upper_limit s \<le> member_num),
              if group_person_upper_limit s \<le> member_num
              then used_group_touched_num + 1 else used_group_touched_num))
       (False, 0) [0..<nat (M s)]"

definition members_can_assign_func :: can_assign where
  "members_can_assign_func s person group_id =
     (case province_conflict s person group_id of
        Inl e \<Rightarrow> Inl e
      | Inr True \<Rightarrow> Inr False
      | Inr False \<Rightarrow>
          let current_member_num = int (length (assigned_groups s group_id)) in
          if group_person_upper_limit s \<le> current_member_num then Inr False
          else
            let used_group_touched_num = snd (members_get_group_touch_limit s group_id) in
            if group_person_upper_limit s \<le> current_member_num + 1 \<and>
               max_group_member_touch_upper_limit s \<le> used_group_touched_num
            then Inr False
            else Inr True)"

definition assign_members :: "group_generation \<Rightarrow> error + (bool \<times> group_generation)" where
  "assign_members s =
     assign_backtrace s 0 (group_members_no_external s) members_can_assign_func"


text \<open>The Phase-1 predicate as the specification words it.\<close>

definition leader_admissible :: "group_generation \<Rightarrow> person \<Rightarrow> nat \<Rightarrow> bool" where
  "leader_admissible s p g = (province p \<notin> set (groups s ! g) \<and> assigned_groups s g = [])"

text \<open>
  Two leaders and two groups; the first group excludes the province of the first leader.
\<close>

definition leaders_example :: group_generation where
  "leaders_example =
     new_group_generation\<lparr>M := 2, groups := [[[120]], [[122]]],
       group_leaders := [person_a, person_b]\<rparr>"

section \<open>The validator: \<open>check\<close>\<close>

text \<open>
  The inner loop of \<open>check\<close> over the people of one group.  It counts every person into
  \<open>total_people\<close> and the external ones into \<open>external_num\<close>, and leaves \<open>check\<close> with
  \<open>False\<close> at the first person whose province the group excludes: the value \<open>None\<close>.
  (The messages \<open>check\<close> prints are not part of the model.)
\<close>

fun check_persons ::
  "group_generation \<Rightarrow> nat \<Rightarrow> person list \<Rightarrow> int \<times> int \<Rightarrow> error + (int \<times> int) option" where
  "check_persons s group_id [] (total_people, external_num') =
     Inr (Some (total_people, external_num'))"
| "check_persons s group_id (person # rest) (total_people, external_num') =
     (let total_people = total_people + 1;
          external_num' = (if is_external person then external_num' + 1 else external_num')
      in case province_conflict s person group_id of
           Inl e \<Rightarrow> Inl e
         | Inr True \<Rightarrow> Inr None
         | Inr False \<Rightarrow> check_persons s group_id rest (total_people, external_num'))"

text \<open>
  The outer loop over the group ids.  \<open>lowest_group_person_num\<close> starts at
  \<open>float('inf')\<close> and \<open>highest_group_person_num\<close> at \<open>float('-inf')\<close>: the value
  \<open>None\<close>; after the first group both are integers.
\<close>

fun check_groups ::
  "group_generation \<Rightarrow> nat list \<Rightarrow> int \<times> int option \<times> int option
    \<Rightarrow> error + (int \<times> int option \<times> int option) option" where
  "check_groups s [] (total_people, lowest, highest) =
     Inr (Some (total_people, lowest, highest))"
| "check_groups s (group_id # rest) (total_people, lowest, highest) =
     (let grp = assigned_groups s group_id;
          group_len = int (length grp)
      in if group_person_upper_limit s < group_len then Inr None
         else if group_len < group_person_lower_limit s then Inr None
         else case check_persons s group_id grp (total_people, 0) of
             Inl e \<Rightarrow> Inl e
           | Inr None \<Rightarrow> Inr None
           | Inr (Some (total_people, external_num')) \<Rightarrow>
               if external_num' < 1 then Inr None
               else check_groups s rest
                 (total_people,
                  Some (case lowest of None \<Rightarrow> group_len | Some l \<Rightarrow> min l group_len),
                  Some (case highest of None \<Rightarrow> group_len | Some h \<Rightarrow> max h group_len)))"

definition check :: "group_generation \<Rightarrow> error + bool" where
  "check s =
     (case check_groups s [0..<nat (M s)] (0, None, None) of
        Inl e \<Rightarrow> Inl e
      | Inr None \<Rightarrow> Inr False
      | Inr (Some (total_people, lowest, highest)) \<Rightarrow>
          if total_people \<noteq> M s + N s then Inr False
          else if (case (lowest, highest) of
                     (Some l, Some h) \<Rightarrow> 1 < h - l
                   | _ \<Rightarrow> False)
          then Inr False
          else Inr True)"

subsection \<open>The constraints as the specification words them\<close>

definition group_size :: "group_generation \<Rightarrow> nat \<Rightarrow> int" where
  "group_size s g = int (length (assigned_groups s g))"

text \<open>
  Every group's size lies between the lower and the upper limit; no two group sizes
  differ by more than one; every group holds at least one external person; no placed
  person's province is in the exclusion list of their group; and the number of placed
  people is \<open>M + N\<close>.  There is no upper bound on the external count here.
\<close>

definition accepted :: "group_generation \<Rightarrow> bool" where
  "accepted s =
     ((\<forall>g\<in>set [0..<nat (M s)].
         group_person_lower_limit s \<le> group_size s g \<and>
         group_size s g \<le> group_person_upper_limit s \<and>
         1 \<le> count_external (assigned_groups s g) \<and>
         (\<forall>p\<in>set (assigned_groups s g).
            g < length (groups s) \<and> province p \<notin> set (groups s ! g))) \<and>
      (\<forall>g\<in>set [0..<nat (M s)]. \<forall>g'\<in>set [0..<nat (M s)].
         group_size s g - group_size s g' \<le> 1) \<and>
      sum_list (map (group_size s) [0..<nat (M s)]) = M s + N s)"

section \<open>Properties of the limit calculator\<close>

subsection \<open>Rounding\<close>



















subsection \<open>The limits\<close>







section \<open>Properties of the backtracking engine\<close>

lemma pop_append:
  "pop_person (append_person s g p) g = Inr s"
  by (simp add: pop_person_def append_person_def)

lemma engine_failure_restores:
  "(assign_backtrace s index people f = Inr (False, s') \<longrightarrow> s' = s)"
  "(assign_loop index people f person m g s = Inr (False, s') \<longrightarrow> s' = s)"
proof (induction s index people f and index people f person m g s
       arbitrary: s' and s' rule: assign_backtrace_assign_loop.induct)
  case (1 s index people f)
  show ?case
    apply (subst assign_backtrace.simps)
    using 1 by (auto split: sum.splits)
next
  case (2 index people f person m g s)
  show ?case
  proof
    assume a: "assign_loop index people f person m g s = Inr (False, s')"
    show "s' = s"
    proof (cases "m \<le> g")
      case True
      with a show ?thesis
        by (subst (asm) assign_loop.simps) simp
    next
      case ng: False
      show ?thesis
      proof (cases "f s person g")
        case (Inl e)
        with a ng show ?thesis
          by (subst (asm) assign_loop.simps) simp
      next
        case (Inr b)
        show ?thesis
        proof (cases b)
          case False
          with a ng Inr have "assign_loop index people f person m (Suc g) s = Inr (False, s')"
            by (subst (asm) assign_loop.simps) simp
          moreover have "assign_loop index people f person m (Suc g) s = Inr (False, s') \<longrightarrow> s' = s"
            using 2 ng Inr False by blast
          ultimately show ?thesis by simp
        next
          case True
          note acc = Inr [unfolded True]
          note accb = True
          show ?thesis
          proof (cases "assign_backtrace (append_person s g person) (index + 1) people f")
            case (Inl e)
            with a ng Inr accb show ?thesis
              by (subst (asm) assign_loop.simps) simp
          next
            case rec: (Inr r)
            obtain ok s1 where r: "r = (ok, s1)" by (cases r)
            show ?thesis
            proof (cases ok)
              case True
              with a ng Inr accb rec r show ?thesis
                by (subst (asm) assign_loop.simps) simp
            next
              case False
              with rec r have rec': "assign_backtrace (append_person s g person) (index + 1) people f
                  = Inr (False, s1)" by simp
              moreover have "assign_backtrace (append_person s g person) (index + 1) people f
                  = Inr (False, s1) \<longrightarrow> s1 = append_person s g person"
                using 2 ng Inr accb by blast
              ultimately have s1: "s1 = append_person s g person" by simp
              then have pop: "pop_person s1 g = Inr s" by (simp add: pop_append)
              from a ng Inr accb rec' pop
              have "assign_loop index people f person m (Suc g) s = Inr (False, s')"
                by (subst (asm) assign_loop.simps) simp
              moreover have "assign_loop index people f person m (Suc g) s = Inr (False, s') \<longrightarrow> s' = s"
                using 2 ng Inr accb rec r False pop by blast
              ultimately show ?thesis by simp
            qed
          qed
        qed
      qed
    qed
  qed
qed


lemma M_append_person [simp]: "M (append_person s g p) = M s"
  by (simp add: append_person_def)

lemma place_all_Cons:
  "place_all s (p # ps) (g # gs) = place_all (append_person s g p) ps gs"
  by (simp add: place_all_def)

lemma engine_result_Cons:
  "engine_result s (p # ps) (map_option ((#) g) r) =
     (case r of Some gs \<Rightarrow> Inr (True, place_all (append_person s g p) ps gs)
      | None \<Rightarrow> Inr (False, s))"
  by (cases r) (simp_all add: engine_result_def place_all_Cons)

lemma engine_refines:
  assumes inv: "\<forall>s g p. I s \<longrightarrow> I (append_person s g p)"
    and adm: "\<forall>s p g. I s \<longrightarrow> g < nat (M s) \<longrightarrow> f s p g = Inr (adm s p g)"
  shows "I s \<longrightarrow> 0 \<le> index \<longrightarrow> index \<le> int (length people) \<longrightarrow>
      assign_backtrace s index people f =
        engine_result s (drop (nat index) people)
          (first_fit adm (nat (M s)) (drop (nat index) people) s)"
    and "I s \<longrightarrow> 0 \<le> index \<longrightarrow> index < int (length people) \<longrightarrow>
      person = people ! nat index \<longrightarrow> m = nat (M s) \<longrightarrow>
      assign_loop index people f person m g s =
        engine_result s (person # drop (Suc (nat index)) people)
          (first_some
             (\<lambda>g. if adm s person g
                  then map_option ((#) g)
                    (first_fit adm m (drop (Suc (nat index)) people) (append_person s g person))
                  else None)
             [g..<m])"
  using inv adm
proof (induction s index people f and index people f person m g s
       rule: assign_backtrace_assign_loop.induct)
  case (1 s index people f)
  note inv' = "1.prems"(1) and adm' = "1.prems"(2)
  show ?case
  proof (intro impI)
    assume Is: "I s" and i0: "0 \<le> index" and il: "index \<le> int (length people)"
    show "assign_backtrace s index people f =
        engine_result s (drop (nat index) people)
          (first_fit adm (nat (M s)) (drop (nat index) people) s)"
    proof (cases "index = int (length people)")
      case True
      then show ?thesis
        by (subst assign_backtrace.simps) (simp add: engine_result_def place_all_def)
    next
      case False
      with i0 il have lt: "index < int (length people)" "nat index < length people" by simp_all
      then have px: "py_index people index = Inr (people ! nat index)"
        using i0 by (simp add: py_index_def)
      have dr: "drop (nat index) people = people ! nat index # drop (Suc (nat index)) people"
        using lt(2) by (simp add: Cons_nth_drop_Suc)
      have "assign_loop index people f (people ! nat index) (nat (M s)) 0 s =
        engine_result s (people ! nat index # drop (Suc (nat index)) people)
          (first_some
             (\<lambda>g. if adm s (people ! nat index) g
                  then map_option ((#) g)
                    (first_fit adm (nat (M s)) (drop (Suc (nat index)) people)
                       (append_person s g (people ! nat index)))
                  else None)
             [0..<nat (M s)])"
        using "1.IH" [OF False px inv' adm'] Is i0 lt(1) by blast
      then show ?thesis
        by (subst assign_backtrace.simps) (simp add: False px dr)
    qed
  qed
next
  case (2 index people f person m g s)
  note inv' = "2.prems"(1) and adm' = "2.prems"(2)
  show ?case
  proof (intro impI)
    assume Is: "I s" and i0: "0 \<le> index" and il: "index < int (length people)"
      and pe: "person = people ! nat index" and me: "m = nat (M s)"
    let ?rest = "drop (Suc (nat index)) people"
    let ?F = "\<lambda>g. if adm s person g
                  then map_option ((#) g) (first_fit adm m ?rest (append_person s g person))
                  else None"
    show "assign_loop index people f person m g s =
        engine_result s (person # ?rest) (first_some ?F [g..<m])"
    proof (cases "m \<le> g")
      case True
      then show ?thesis
        by (subst assign_loop.simps) (simp add: engine_result_def)
    next
      case ng: False
      then have upt: "[g..<m] = g # [Suc g..<m]"
        by (simp add: upt_conv_Cons)
      have fa: "f s person g = Inr (adm s person g)"
        using adm' Is ng me by simp
      show ?thesis
      proof (cases "adm s person g")
        case False
        then have bF: "adm s person g = False" by simp
        have "assign_loop index people f person m (Suc g) s =
            engine_result s (person # ?rest) (first_some ?F [Suc g..<m])"
          using "2.IH"(3) [OF ng fa bF inv' adm'] Is i0 il pe me by blast
        then show ?thesis
          by (subst assign_loop.simps) (simp add: ng fa False upt)
      next
        case True
        then have bT: "adm s person g = True" by simp
        let ?s1 = "append_person s g person"
        have ni: "nat (index + 1) = Suc (nat index)"
          using i0 by simp
        have "assign_backtrace ?s1 (index + 1) people f =
            engine_result ?s1 (drop (nat (index + 1)) people)
              (first_fit adm (nat (M ?s1)) (drop (nat (index + 1)) people) ?s1)"
          using "2.IH"(1) [OF ng fa bT inv' adm'] Is inv' i0 il by simp
        then have rec: "assign_backtrace ?s1 (index + 1) people f =
            engine_result ?s1 ?rest (first_fit adm m ?rest ?s1)"
          by (simp add: ni me)
        show ?thesis
        proof (cases "first_fit adm m ?rest ?s1")
          case None
          with rec have rec': "assign_backtrace ?s1 (index + 1) people f = Inr (False, ?s1)"
            by (simp add: engine_result_def)
          have pop: "pop_person ?s1 g = Inr s"
            by (rule pop_append)
          have "assign_loop index people f person m (Suc g) s =
              engine_result s (person # ?rest) (first_some ?F [Suc g..<m])"
            using "2.IH"(2) [OF ng fa bT rec' refl _ pop inv' adm'] Is i0 il pe me by simp
          then show ?thesis
            by (subst assign_loop.simps) (simp add: ng fa True upt rec' pop None)
        next
          case (Some gs)
          with rec have rec': "assign_backtrace ?s1 (index + 1) people f =
              Inr (True, place_all ?s1 ?rest gs)"
            by (simp add: engine_result_def)
          show ?thesis
            by (subst assign_loop.simps)
              (simp add: ng fa True upt rec' Some engine_result_def place_all_Cons)
        qed
      qed
    qed
  qed
qed

lemma first_some_SomeD:
  "first_some f xs = Some y \<Longrightarrow> \<exists>x\<in>set xs. f x = Some y"
  by (induction xs) (auto split: option.splits)


text \<open>
  Claim C4.  Whatever the object, the index, the list of people and the predicate: when
  \<open>assign_backtrace\<close> returns \<open>False\<close>, the object after the call is the object before
  it.  In particular the assignment table is the same: every placement made during the
  search has been popped again.
\<close>

theorem assign_backtrace_failure_restores:
  "assign_backtrace s index people can_assign_func = Inr (False, s') \<Longrightarrow> s' = s"
  using engine_failure_restores(1) by blast

theorem assign_backtrace_failure_restores_witness:
  "assign_backtrace two_groups 0 [person_a, person_b] first_group_only = Inr (False, two_groups)"
proof -
  have "\<exists>s'. assign_backtrace two_groups 0 [person_a, person_b] first_group_only = Inr (False, s')"
    by (simp add: assign_backtrace.simps assign_loop.simps py_index_def first_group_only_def
        append_person_def pop_person_def two_groups_def new_group_generation_def)
  then obtain s' where
    r: "assign_backtrace two_groups 0 [person_a, person_b] first_group_only = Inr (False, s')"
    by blast
  from assign_backtrace_failure_restores [OF r] r show ?thesis by simp
qed



section \<open>Properties of the phases\<close>

subsection \<open>Phase 2\<close>




subsection \<open>Phase 1\<close>

lemma leaders_can_assign_func_eq:
  "leaders_can_assign_func s person group_id =
     (if group_id < length (groups s)
      then Inr (leader_admissible s person group_id)
      else Inl IndexError)"
  by (cases "assigned_groups s group_id")
    (auto simp add: leaders_can_assign_func_def province_conflict_def leader_admissible_def
      split: bool.splits)

lemma groups_append_person [simp]: "groups (append_person s g p) = groups s"
  by (simp add: append_person_def)

lemma assigned_append_person:
  "assigned_groups (append_person s g p) h =
     (if h = g then assigned_groups s g @ [p] else assigned_groups s h)"
  by (simp add: append_person_def)

lemma first_fit_leaders:
  "first_fit leader_admissible m ps s = Some gs \<Longrightarrow>
     (\<forall>g. assigned_groups (place_all s ps gs) g = assigned_groups s g \<or>
          (g < m \<and> assigned_groups s g = [] \<and>
           (\<exists>p\<in>set ps. assigned_groups (place_all s ps gs) g = [p] \<and>
              province p \<notin> set (groups s ! g)))) \<and>
     card {g. assigned_groups (place_all s ps gs) g \<noteq> assigned_groups s g} = length ps"
proof (induction ps arbitrary: s gs)
  case Nil
  then show ?case by (simp add: place_all_def)
next
  case (Cons p ps)
  from Cons.prems obtain g where g: "g \<in> set [0..<m]"
    and c: "(if leader_admissible s p g
             then map_option ((#) g) (first_fit leader_admissible m ps (append_person s g p))
             else None) = Some gs"
    by (auto dest: first_some_SomeD)
  from c obtain hs where adm: "leader_admissible s p g"
    and hs: "first_fit leader_admissible m ps (append_person s g p) = Some hs"
    and gs: "gs = g # hs"
    by (auto split: if_splits)
  let ?s1 = "append_person s g p"
  let ?s' = "place_all ?s1 ps hs"
  have pl: "place_all s (p # ps) gs = ?s'"
    by (simp add: gs place_all_Cons)
  from adm have e: "assigned_groups s g = []" and pr: "province p \<notin> set (groups s ! g)"
    by (simp_all add: leader_admissible_def)
  have t1: "\<And>h. assigned_groups ?s1 h = (if h = g then [p] else assigned_groups s h)"
    by (simp add: assigned_append_person e)
  from Cons.IH [OF hs]
  have ih1: "\<And>h. assigned_groups ?s' h = assigned_groups ?s1 h \<or>
          (h < m \<and> assigned_groups ?s1 h = [] \<and>
           (\<exists>q\<in>set ps. assigned_groups ?s' h = [q] \<and> province q \<notin> set (groups s ! h)))"
    and ih2: "card {h. assigned_groups ?s' h \<noteq> assigned_groups ?s1 h} = length ps"
    by simp_all
  have atg: "assigned_groups ?s' g = [p]"
    using ih1 [of g] t1 [of g] by simp
  have part1: "assigned_groups ?s' h = assigned_groups s h \<or>
          (h < m \<and> assigned_groups s h = [] \<and>
           (\<exists>q\<in>set (p # ps). assigned_groups ?s' h = [q] \<and> province q \<notin> set (groups s ! h)))"
    for h
  proof (cases "h = g")
    case True
    with atg e pr g show ?thesis by simp
  next
    case False
    with ih1 [of h] t1 [of h] show ?thesis by auto
  qed
  have sub: "{h. assigned_groups ?s' h \<noteq> assigned_groups ?s1 h} \<subseteq> {..<m}"
    using ih1 by auto
  then have fin: "finite {h. assigned_groups ?s' h \<noteq> assigned_groups ?s1 h}"
    by (rule finite_subset) simp
  have "{h. assigned_groups ?s' h \<noteq> assigned_groups s h} =
      insert g {h. assigned_groups ?s' h \<noteq> assigned_groups ?s1 h}"
    using atg e t1 by auto
  moreover have "g \<notin> {h. assigned_groups ?s' h \<noteq> assigned_groups ?s1 h}"
    using atg t1 [of g] by simp
  ultimately have "card {h. assigned_groups ?s' h \<noteq> assigned_groups s h} = Suc (length ps)"
    using fin ih2 by simp
  with part1 show ?case
    unfolding pl by simp
qed

lemma assign_leaders_first_fit:
  assumes "nat (M s) \<le> length (groups s)"
  shows "assign_leaders s =
      engine_result s (group_leaders s)
        (first_fit leader_admissible (nat (M s)) (group_leaders s) s)"
proof -
  let ?I = "\<lambda>s'. M s' = M s \<and> groups s' = groups s"
  have "?I s \<longrightarrow> 0 \<le> (0::int) \<longrightarrow> 0 \<le> int (length (group_leaders s)) \<longrightarrow>
      assign_backtrace s 0 (group_leaders s) leaders_can_assign_func =
        engine_result s (drop (nat 0) (group_leaders s))
          (first_fit leader_admissible (nat (M s)) (drop (nat 0) (group_leaders s)) s)"
    by (rule engine_refines(1) [where I = ?I])
      (use assms in \<open>simp_all add: leaders_can_assign_func_eq\<close>)
  then show ?thesis
    by (simp add: assign_leaders_def)
qed

text \<open>
  Claim C6.  The Phase-1 predicate returns \<open>True\<close> exactly when the leader's province
  is not in the group's exclusion list and the group's sequence is empty (and raises
  \<open>IndexError\<close> on a group id without an exclusion list).  Consequently, when Phase 1
  starts from a table whose groups \<open>0, \<dots>, M - 1\<close> are empty, with \<open>M\<close> leaders and an
  exclusion list for each group, and succeeds, every group holds exactly one person: a
  leader whose province is not in the group's exclusion list.
\<close>

theorem assign_leaders_one_per_group:
  "leaders_can_assign_func s person group_id =
     (if group_id < length (groups s)
      then Inr (province person \<notin> set (groups s ! group_id) \<and> assigned_groups s group_id = [])
      else Inl IndexError) \<and>
   (assign_leaders s = Inr (True, s') \<and>
    (\<forall>g<nat (M s). assigned_groups s g = []) \<and>
    length (group_leaders s) = nat (M s) \<and>
    nat (M s) \<le> length (groups s) \<longrightarrow>
    (\<forall>g<nat (M s). \<exists>leader\<in>set (group_leaders s).
        assigned_groups s' g = [leader] \<and> province leader \<notin> set (groups s ! g)))"
proof (intro conjI impI)
  show "leaders_can_assign_func s person group_id =
     (if group_id < length (groups s)
      then Inr (province person \<notin> set (groups s ! group_id) \<and> assigned_groups s group_id = [])
      else Inl IndexError)"
    by (simp add: leaders_can_assign_func_eq leader_admissible_def)
next
  assume h: "assign_leaders s = Inr (True, s') \<and>
    (\<forall>g<nat (M s). assigned_groups s g = []) \<and>
    length (group_leaders s) = nat (M s) \<and>
    nat (M s) \<le> length (groups s)"
  let ?m = "nat (M s)" and ?ps = "group_leaders s"
  from h assign_leaders_first_fit [of s]
  have "engine_result s ?ps (first_fit leader_admissible ?m ?ps s) = Inr (True, s')"
    by simp
  then obtain gs where ff: "first_fit leader_admissible ?m ?ps s = Some gs"
    and s': "s' = place_all s ?ps gs"
    by (auto simp add: engine_result_def split: option.splits)
  let ?C = "{g. assigned_groups s' g \<noteq> assigned_groups s g}"
  from first_fit_leaders [OF ff]
  have p1: "\<And>g. assigned_groups s' g = assigned_groups s g \<or>
          (g < ?m \<and> assigned_groups s g = [] \<and>
           (\<exists>p\<in>set ?ps. assigned_groups s' g = [p] \<and> province p \<notin> set (groups s ! g)))"
    and p2: "card ?C = length ?ps"
    unfolding s' by simp_all
  have "?C \<subseteq> {..<?m}"
    using p1 by auto
  moreover have "card ?C = card {..<?m}"
    using p2 h by simp
  ultimately have "?C = {..<?m}"
    by (intro card_subset_eq) simp_all
  then have "\<And>g. g < ?m \<Longrightarrow> assigned_groups s' g \<noteq> assigned_groups s g"
    by auto
  with p1 show "\<forall>g<?m. \<exists>leader\<in>set ?ps.
      assigned_groups s' g = [leader] \<and> province leader \<notin> set (groups s ! g)"
    by blast
qed

theorem assign_leaders_one_per_group_witness:
  "\<exists>s'. assign_leaders leaders_example = Inr (True, s') \<and>
     assigned_groups leaders_example 0 = [] \<and> assigned_groups leaders_example 1 = [] \<and>
     length (group_leaders leaders_example) = nat (M leaders_example) \<and>
     nat (M leaders_example) \<le> length (groups leaders_example) \<and>
     assigned_groups s' 0 = [person_b] \<and> assigned_groups s' 1 = [person_a] \<and>
     (\<exists>leader\<in>set (group_leaders leaders_example).
        assigned_groups s' 0 = [leader] \<and> province leader \<notin> set (groups leaders_example ! 0))"
proof -
  have v: "M leaders_example = 2" "groups leaders_example = [[[120]], [[122]]]"
    "group_leaders leaders_example = [person_a, person_b]"
    "assigned_groups leaders_example = (\<lambda>_. [])"
    by (simp_all add: leaders_example_def new_group_generation_def)
  have "\<exists>s'. assign_leaders leaders_example = Inr (True, s') \<and>
      assigned_groups s' 0 = [person_b] \<and> assigned_groups s' 1 = [person_a]"
    by (simp add: assign_leaders_def assign_backtrace.simps assign_loop.simps py_index_def v
        leaders_can_assign_func_def province_conflict_def append_person_def
        person_a_def person_b_def)
  then obtain s' where r: "assign_leaders leaders_example = Inr (True, s')"
    and t: "assigned_groups s' 0 = [person_b]" "assigned_groups s' 1 = [person_a]"
    by blast
  have e: "\<forall>g<nat (M leaders_example). assigned_groups leaders_example g = []"
    by (simp add: v)
  have l: "length (group_leaders leaders_example) = nat (M leaders_example)"
    "nat (M leaders_example) \<le> length (groups leaders_example)"
    by (simp_all add: v)
  have m0: "0 < nat (M leaders_example)"
    by (simp add: v)
  from assign_leaders_one_per_group [of leaders_example person_a 0 s'] r e l
  have "\<forall>g<nat (M leaders_example). \<exists>leader\<in>set (group_leaders leaders_example).
        assigned_groups s' g = [leader] \<and> province leader \<notin> set (groups leaders_example ! g)"
    by blast
  from this [rule_format, OF m0]
  have x: "\<exists>leader\<in>set (group_leaders leaders_example).
        assigned_groups s' 0 = [leader] \<and> province leader \<notin> set (groups leaders_example ! 0)" .
  have e0: "assigned_groups leaders_example 0 = []" "assigned_groups leaders_example 1 = []"
    by (simp_all add: v)
  from r e0 l t x show ?thesis
    by blast
qed

end
